theory Spec2Isabelle
  imports Complex_Main "HOL-Library.Char_ord" "HOL-Library.List_Lexorder"
begin

section \<open>JavaScript values used by \<open>fakedb.js\<close>\<close>

subsection \<open>Numbers\<close>

text \<open>
  A JavaScript number is a binary64 value, \<open>NaN\<close>, \<open>Infinity\<close> or \<open>-Infinity\<close>. A finite
  one is written \<open>Fin m e\<close>, the decimal fraction \<open>m * 10 ^ e\<close>: every finite binary64
  value is such a fraction. The type is wider than binary64 (\<open>Fin 1 (- 1)\<close> is one
  tenth, which no binary64 value is); \<open>Number\<close> below rounds to binary64 and
  \<open>Number_toString\<close> gives the shortest digits that read back. \<open>-0\<close> is not told
  apart from \<open>0\<close> (no operation of \<open>fakedb.js\<close> tells them apart). The same number has
  several representations (\<open>Fin 10 0\<close> and \<open>Fin 1 1\<close>); every operation depends on the
  value only.
\<close>

datatype jsnum = Fin int int | NaN | PosInf | NegInf

text \<open>The value of a finite number, for stating properties; not used by the code.\<close>

definition fin_val :: "int \<Rightarrow> int \<Rightarrow> rat" where
  "fin_val m e = of_int m * 10 powi e"

text \<open>The global \<open>isFinite\<close>, on a number.\<close>

fun isFinite :: "jsnum \<Rightarrow> bool" where
  "isFinite (Fin m e) = True"
| "isFinite NaN = False"
| "isFinite PosInf = False"
| "isFinite NegInf = False"

text \<open>
  The operator \<open>-\<close> on numbers: finite operands are brought to the smaller exponent.
  The difference is kept exact. The engine rounds it to binary64, which keeps its sign
  (the difference of two different binary64 values is not rounded to zero), and the
  comparator of \<open>sort\<close> is read for its sign only.
\<close>

fun js_sub :: "jsnum \<Rightarrow> jsnum \<Rightarrow> jsnum" where
  "js_sub (Fin m e) (Fin n f) =
     (let x = min e f in Fin (m * 10 ^ nat (e - x) - n * 10 ^ nat (f - x)) x)"
| "js_sub NaN b = NaN"
| "js_sub a NaN = NaN"
| "js_sub PosInf PosInf = NaN"
| "js_sub NegInf NegInf = NaN"
| "js_sub PosInf b = PosInf"
| "js_sub NegInf b = NegInf"
| "js_sub (Fin m e) PosInf = NegInf"
| "js_sub (Fin m e) NegInf = PosInf"

text \<open>\<open>v < 0\<close> on a number \<open>v\<close>; it is false on \<open>NaN\<close>.\<close>

fun js_lt0 :: "jsnum \<Rightarrow> bool" where
  "js_lt0 (Fin m e) = (m < 0)"
| "js_lt0 NegInf = True"
| "js_lt0 v = False"

text \<open>The relational operators \<open>a < b\<close> and \<open>a >= b\<close> on numbers.\<close>

fun js_lt :: "jsnum \<Rightarrow> jsnum \<Rightarrow> bool" where
  "js_lt NaN b = False"
| "js_lt a NaN = False"
| "js_lt (Fin m e) (Fin n f) = js_lt0 (js_sub (Fin m e) (Fin n f))"
| "js_lt PosInf b = False"
| "js_lt a PosInf = True"
| "js_lt a NegInf = False"
| "js_lt NegInf b = True"

definition js_ge :: "jsnum \<Rightarrow> jsnum \<Rightarrow> bool" where
  "js_ge a b = (a \<noteq> NaN \<and> b \<noteq> NaN \<and> \<not> js_lt a b)"

text \<open>
  SameValueZero, the comparison of \<open>Array.prototype.includes\<close>: \<open>NaN\<close> is equal
  to itself, finite numbers are compared by value.
\<close>

fun same_value_zero :: "jsnum \<Rightarrow> jsnum \<Rightarrow> bool" where
  "same_value_zero (Fin m e) (Fin n f) =
     (let x = min e f in m * 10 ^ nat (e - x) = n * 10 ^ nat (f - x))"
| "same_value_zero NaN NaN = True"
| "same_value_zero PosInf PosInf = True"
| "same_value_zero NegInf NegInf = True"
| "same_value_zero a b = False"

subsection \<open>Rounding to binary64\<close>

text \<open>
  The binary64 value nearest to \<open>m * 10 ^ e\<close>, ties to the even significand, as the
  engine takes the value of a numeric literal. \<open>bit_length\<close> places the value between
  two powers of two; the significand has 53 bits, less for a subnormal value, whose
  exponent stays at \<open>-1074\<close>; a value that rounds to \<open>2 ^ 1024\<close> or more is
  \<open>Infinity\<close>, and one below half the least subnormal is \<open>0\<close>.
\<close>

function bit_length :: "int \<Rightarrow> int" where
  "bit_length n = (if n \<le> 0 then 0 else 1 + bit_length (n div 2))"
  by pat_completeness auto
termination
  by (relation "measure nat") auto

declare bit_length.simps [simp del]

definition round_half_even :: "int \<Rightarrow> int \<Rightarrow> int" where
  "round_half_even num den =
     (let q = num div den; r = num mod den in
      if 2 * r < den then q
      else if den < 2 * r then q + 1
      else if even q then q else q + 1)"

definition nearest64 :: "int \<Rightarrow> int \<Rightarrow> jsnum" where
  "nearest64 m e =
     (let num = (if 0 \<le> e then m * 10 ^ nat e else m);
          den = (if 0 \<le> e then 1 else 10 ^ nat (- e));
          l = bit_length num - bit_length den;
          over = (\<lambda>x. if 0 \<le> x then (num, den * 2 ^ nat x) else (num * 2 ^ nat (- x), den));
          x1 = l - 53;
          x2 = (if 2 ^ 53 \<le> fst (over x1) div snd (over x1) then x1 + 1 else x1);
          x = max x2 (- 1074);
          sig = round_half_even (fst (over x)) (snd (over x))
      in if 0 \<le> x \<and> 2 ^ 1024 \<le> sig * 2 ^ nat x then PosInf
         else if 0 \<le> x then Fin (sig * 2 ^ nat x) 0
         else Fin (sig * 5 ^ nat (- x)) x)"

fun js_neg :: "jsnum \<Rightarrow> jsnum" where
  "js_neg (Fin m e) = Fin (- m) e"
| "js_neg NaN = NaN"
| "js_neg PosInf = NegInf"
| "js_neg NegInf = PosInf"

text \<open>
  With the sign. A fraction that is a binary64 value is kept as it is written.
\<close>

definition binary64 :: "int \<Rightarrow> int \<Rightarrow> jsnum" where
  "binary64 m e =
     (if m = 0 then Fin m e
      else
        (let r = (if m < 0 then js_neg (nearest64 (- m) e) else nearest64 m e)
         in if same_value_zero r (Fin m e) then Fin m e else r))"

subsection \<open>Number to string\<close>

text \<open>
  \<open>Number::toString\<close> of ECMAScript, radix 10. The digits are the fewest, \<open>k\<close> of them,
  that read back as the number, and among several choices of \<open>k\<close> digits the nearest
  to the number, the even one at a tie. \<open>strip10\<close> gives the digits of the exact
  value without trailing zeros; \<open>shortest\<close> tries \<open>k = 1, 2, ...\<close> below their count,
  where only the two neighbours of the number with \<open>k\<close> digits can read back as it.
  With the digits and \<open>n = k + exponent\<close> the four layouts of the standard follow.
\<close>

function strip10 :: "int \<Rightarrow> int \<Rightarrow> int \<times> int" where
  "strip10 m e = (if m \<noteq> 0 \<and> m mod 10 = 0 then strip10 (m div 10) (e + 1) else (m, e))"
  by pat_completeness auto
termination
  by (relation "measure (\<lambda>(m, e). nat \<bar>m\<bar>)") auto

declare strip10.simps [simp del]

definition digit_char :: "nat \<Rightarrow> char" where
  "digit_char d = char_of (of_char (CHR ''0'') + d)"

function digits :: "int \<Rightarrow> string" where
  "digits n =
     (if n < 10 then [digit_char (nat n)]
      else digits (n div 10) @ [digit_char (nat (n mod 10))])"
  by pat_completeness auto
termination
  by (relation "measure nat") auto

declare digits.simps [simp del]

definition layout :: "string \<Rightarrow> int \<Rightarrow> string" where
  "layout ds n =
     (let k = int (length ds) in
      if k \<le> n \<and> n \<le> 21 then ds @ replicate (nat (n - k)) (CHR ''0'')
      else if 0 < n \<and> n \<le> 21 then take (nat n) ds @ ''.'' @ drop (nat n) ds
      else if -6 < n \<and> n \<le> 0 then ''0.'' @ replicate (nat (- n)) (CHR ''0'') @ ds
      else
        (let ex = n - 1;
             es = (if ex < 0 then ''-'' else ''+'') @ digits \<bar>ex\<bar>
         in if k = 1 then ds @ ''e'' @ es
            else take 1 ds @ ''.'' @ drop 1 ds @ ''e'' @ es))"

definition candidate :: "int \<Rightarrow> int \<Rightarrow> nat \<Rightarrow> nat \<Rightarrow> (int \<times> int) option" where
  "candidate s x count k =
     (let p = 10 ^ (count - k);
          lo = s div p;
          hi = lo + 1;
          r = s mod p;
          scale = x + int (count - k);
          lo_ok = same_value_zero (binary64 lo scale) (Fin s x);
          hi_ok = same_value_zero (binary64 hi scale) (Fin s x)
      in if lo_ok \<and> hi_ok then
           (if 2 * r < p then Some (lo, scale)
            else if p < 2 * r then Some (hi, scale)
            else if even lo then Some (lo, scale) else Some (hi, scale))
         else if lo_ok then Some (lo, scale)
         else if hi_ok then Some (hi, scale)
         else None)"

fun shortest :: "int \<Rightarrow> int \<Rightarrow> nat \<Rightarrow> nat list \<Rightarrow> int \<times> int" where
  "shortest s x count [] = (s, x)"
| "shortest s x count (k # ks) =
     (case candidate s x count k of
        Some c \<Rightarrow> c
      | None \<Rightarrow> shortest s x count ks)"

fun Number_toString :: "jsnum \<Rightarrow> string" where
  "Number_toString NaN = ''NaN''"
| "Number_toString PosInf = ''Infinity''"
| "Number_toString NegInf = ''-Infinity''"
| "Number_toString (Fin m e) =
     (if m = 0 then ''0''
      else
        (let (s, x) = strip10 \<bar>m\<bar> e;
             count = length (digits s);
             (s1, x1) = shortest s x count [1 ..< min 18 count];
             (s2, x2) = strip10 s1 x1;
             ds = digits s2
         in (if m < 0 then ''-'' else '''') @ layout ds (int (length ds) + x2)))"

subsection \<open>String to number\<close>

text \<open>
  \<open>Number(str)\<close>: the StringNumericLiteral grammar of ECMAScript. White space
  around the literal is dropped and the empty string is \<open>0\<close>; a decimal literal
  has an optional sign, digits with an optional fraction and an optional exponent,
  or is \<open>Infinity\<close>; \<open>0x\<close>, \<open>0o\<close> and \<open>0b\<close> literals take no sign; everything else
  is \<open>NaN\<close>. The value of the literal is rounded to binary64. Characters are code
  units below 256.
\<close>

definition is_ws :: "char \<Rightarrow> bool" where
  "is_ws c = ((of_char c :: nat) \<in> {9, 10, 11, 12, 13, 32, 160})"

definition trim :: "string \<Rightarrow> string" where
  "trim s = rev (dropWhile is_ws (rev (dropWhile is_ws s)))"

definition is_digit :: "char \<Rightarrow> bool" where
  "is_digit c = (CHR ''0'' \<le> c \<and> c \<le> CHR ''9'')"

text \<open>The value of a digit in a radix up to 16, when the character is one.\<close>

definition digit_of :: "nat \<Rightarrow> char \<Rightarrow> nat option" where
  "digit_of radix c =
     (let v = (if CHR ''0'' \<le> c \<and> c \<le> CHR ''9'' then Some (of_char c - of_char (CHR ''0''))
               else if CHR ''a'' \<le> c \<and> c \<le> CHR ''f'' then Some (of_char c - of_char (CHR ''a'') + 10)
               else if CHR ''A'' \<le> c \<and> c \<le> CHR ''F'' then Some (of_char c - of_char (CHR ''A'') + 10)
               else None)
      in case v of None \<Rightarrow> None | Some d \<Rightarrow> if d < radix then Some d else None)"

text \<open>A run of digits of the radix, read as a number.\<close>

fun radix_val :: "nat \<Rightarrow> int \<Rightarrow> string \<Rightarrow> int option" where
  "radix_val radix acc [] = Some acc"
| "radix_val radix acc (c # cs) =
     (case digit_of radix c of
        None \<Rightarrow> None
      | Some d \<Rightarrow> radix_val radix (acc * int radix + int d) cs)"

definition radix_literal :: "nat \<Rightarrow> string \<Rightarrow> jsnum" where
  "radix_literal radix ds =
     (if ds = [] then NaN
      else case radix_val radix 0 ds of None \<Rightarrow> NaN | Some v \<Rightarrow> binary64 v 0)"

text \<open>The exponent part: nothing, or \<open>e\<close>/\<open>E\<close>, an optional sign and digits.\<close>

definition exponent_part :: "string \<Rightarrow> int option" where
  "exponent_part r =
     (case r of
        [] \<Rightarrow> Some 0
      | c # r1 \<Rightarrow>
          if c = CHR ''e'' \<or> c = CHR ''E'' then
            (let (neg, ds) =
                   (case r1 of
                      [] \<Rightarrow> (False, [])
                    | d # r2 \<Rightarrow> if d = CHR ''-'' then (True, r2)
                                else if d = CHR ''+'' then (False, r2)
                                else (False, r1))
             in if ds = [] then None
                else case radix_val 10 0 ds of
                       None \<Rightarrow> None
                     | Some v \<Rightarrow> Some (if neg then - v else v))
          else None)"

text \<open>StrUnsignedDecimalLiteral, with the sign already read.\<close>

definition unsigned_decimal :: "bool \<Rightarrow> string \<Rightarrow> jsnum" where
  "unsigned_decimal neg s =
     (if s = ''Infinity'' then (if neg then NegInf else PosInf)
      else
        (let ip = takeWhile is_digit s;
             r1 = dropWhile is_digit s;
             dot = (r1 \<noteq> [] \<and> hd r1 = CHR ''.'');
             fp = (if dot then takeWhile is_digit (tl r1) else []);
             r2 = (if dot then dropWhile is_digit (tl r1) else r1)
         in if ip = [] \<and> fp = [] then NaN
            else case (radix_val 10 0 (ip @ fp), exponent_part r2) of
                   (Some v, Some ex) \<Rightarrow>
                     binary64 (if neg then - v else v) (ex - int (length fp))
                 | _ \<Rightarrow> NaN))"

definition Number :: "string \<Rightarrow> jsnum" where
  "Number str =
     (let s = trim str in
      if s = [] then Fin 0 0
      else if take 2 s = ''0x'' \<or> take 2 s = ''0X'' then radix_literal 16 (drop 2 s)
      else if take 2 s = ''0o'' \<or> take 2 s = ''0O'' then radix_literal 8 (drop 2 s)
      else if take 2 s = ''0b'' \<or> take 2 s = ''0B'' then radix_literal 2 (drop 2 s)
      else if hd s = CHR ''-'' then unsigned_decimal True (tl s)
      else if hd s = CHR ''+'' then unsigned_decimal False (tl s)
      else unsigned_decimal False s)"

subsection \<open>Strings and arrays\<close>

text \<open>\<open>String.prototype.split(',')\<close>: the pieces between the commas; never empty.\<close>

fun split_at_comma :: "string \<Rightarrow> string \<Rightarrow> string list" where
  "split_at_comma cur [] = [cur]"
| "split_at_comma cur (c # cs) =
     (if c = CHR '','' then cur # split_at_comma [] cs
      else split_at_comma (cur @ [c]) cs)"

definition split_comma :: "string \<Rightarrow> string list" where
  "split_comma s = split_at_comma [] s"

text \<open>
  \<open>String.prototype.split(/\.{2,}/)\<close>: the separator is a maximal run of two or
  more dots (the quantifier is greedy); a single dot stays in its piece.
\<close>

function split_at_dots :: "string \<Rightarrow> string \<Rightarrow> string list" where
  "split_at_dots cur [] = [cur]"
| "split_at_dots cur (c # cs) =
     (if c = CHR ''.'' \<and> cs \<noteq> [] \<and> hd cs = CHR ''.''
      then cur # split_at_dots [] (dropWhile (\<lambda>d. d = CHR ''.'') cs)
      else split_at_dots (cur @ [c]) cs)"
  by pat_completeness auto
termination
  by (relation "measure (\<lambda>(cur, s). length s)")
     (auto simp: less_Suc_eq_le length_dropWhile_le)

definition split_dots :: "string \<Rightarrow> string list" where
  "split_dots s = split_at_dots [] s"


text \<open>\<open>Array.prototype.findIndex\<close>: the first index where the predicate holds, or \<open>-1\<close>.\<close>

fun findIndex :: "('a \<Rightarrow> bool) \<Rightarrow> 'a list \<Rightarrow> int" where
  "findIndex P [] = - 1"
| "findIndex P (x # xs) =
     (if P x then 0
      else (let i = findIndex P xs in if i < 0 then - 1 else i + 1))"

text \<open>
  \<open>Array.prototype.slice(start, end)\<close>: a negative index counts from the end, both
  are clamped to the array, and an end before the start gives the empty array.
\<close>

definition slice :: "'a list \<Rightarrow> int \<Rightarrow> int \<Rightarrow> 'a list" where
  "slice xs start end =
     (let len = int (length xs);
          k = (if start < 0 then max (len + start) 0 else min start len);
          final = (if end < 0 then max (len + end) 0 else min end len)
      in take (nat (final - k)) (drop (nat k) xs))"

text \<open>
  \<open>Array.prototype.sort()\<close> without a comparator, on numbers: the elements are
  ordered by their strings, compared code unit by code unit.
\<close>

definition sort_default :: "jsnum list \<Rightarrow> jsnum list" where
  "sort_default xs = sort_key Number_toString xs"

text \<open>
  \<open>Array.prototype.sort(comparefn)\<close>, as V8 does it (\<open>array-sort.tq\<close>). ECMAScript
  fixes the result for a consistent comparator only, where every stable sort gives
  the same array; with a comparator that is not consistent (it is \<open>NaN\<close> on a thread
  with an empty \<open>ep\<close>) the order is the engine's. V8 takes the comparator's result
  through ToNumber and reads \<open>NaN\<close> as \<open>0\<close> (\<open>SortCompare\<close>), finds the run at the start of
  the array, reversing it when it is strictly descending
  (\<open>CountRunAndMakeAscending\<close>), and puts every later element into it at the place a
  binary search gives (\<open>BinaryInsertionSort\<close>). This is all of V8's sort for an array
  of fewer than 64 elements. A longer array V8 cuts into several runs that it
  merges; the model sorts it in the same one pass, which gives the array of V8
  whenever the comparator is consistent, both sorts being stable.
\<close>

definition SortCompare :: "('a \<Rightarrow> 'a \<Rightarrow> jsnum) \<Rightarrow> 'a \<Rightarrow> 'a \<Rightarrow> jsnum" where
  "SortCompare comparefn x y = (let v = comparefn x y in if v = NaN then Fin 0 0 else v)"

text \<open>
  The elements after the second that still belong to the run: the loop ends at the
  first element with \<open>order >= 0\<close> in a descending run, \<open>order < 0\<close> otherwise.
\<close>

fun run_after :: "('a \<Rightarrow> 'a \<Rightarrow> jsnum) \<Rightarrow> bool \<Rightarrow> 'a \<Rightarrow> 'a list \<Rightarrow> nat" where
  "run_after comparefn isDescending previousElement [] = 0"
| "run_after comparefn isDescending previousElement (currentElement # rest) =
     (let order = SortCompare comparefn currentElement previousElement in
      if (if isDescending then \<not> js_lt0 order else js_lt0 order) then 0
      else Suc (run_after comparefn isDescending currentElement rest))"

definition CountRunAndMakeAscending :: "('a \<Rightarrow> 'a \<Rightarrow> jsnum) \<Rightarrow> 'a list \<Rightarrow> nat \<times> 'a list" where
  "CountRunAndMakeAscending comparefn xs =
     (case xs of
        [] \<Rightarrow> (0, xs)
      | [x] \<Rightarrow> (1, xs)
      | elementHigh # elementLow # rest \<Rightarrow>
          (let isDescending = js_lt0 (SortCompare comparefn elementLow elementHigh);
               runLength = 2 + run_after comparefn isDescending elementLow rest
           in (runLength,
               if isDescending then rev (take runLength xs) @ drop runLength xs else xs)))"

text \<open>The binary search of \<open>BinaryInsertionSort\<close> for the place of \<open>pivot\<close> in \<open>a[left..right)\<close>.\<close>

function insertion_point :: "('a \<Rightarrow> 'a \<Rightarrow> jsnum) \<Rightarrow> 'a \<Rightarrow> 'a list \<Rightarrow> nat \<Rightarrow> nat \<Rightarrow> nat" where
  "insertion_point comparefn pivot a left right =
     (if left < right then
        (let mid = left + (right - left) div 2 in
         if js_lt0 (SortCompare comparefn pivot (a ! mid))
         then insertion_point comparefn pivot a left mid
         else insertion_point comparefn pivot a (mid + 1) right)
      else left)"
  by pat_completeness auto
termination
  by (relation "measure (\<lambda>(comparefn, pivot, a, left, right). right - left)") auto

declare insertion_point.simps [simp del]

definition insert_pivot :: "('a \<Rightarrow> 'a \<Rightarrow> jsnum) \<Rightarrow> 'a list \<Rightarrow> 'a \<Rightarrow> 'a list" where
  "insert_pivot comparefn a pivot =
     (let left = insertion_point comparefn pivot a 0 (length a)
      in take left a @ pivot # drop left a)"

definition BinaryInsertionSort :: "('a \<Rightarrow> 'a \<Rightarrow> jsnum) \<Rightarrow> 'a list \<Rightarrow> 'a list \<Rightarrow> 'a list" where
  "BinaryInsertionSort comparefn run rest = foldl (insert_pivot comparefn) run rest"

definition sort_with :: "('a \<Rightarrow> 'a \<Rightarrow> jsnum) \<Rightarrow> 'a list \<Rightarrow> 'a list" where
  "sort_with comparefn xs =
     (if length xs < 2 then xs
      else
        (let (runLength, ys) = CountRunAndMakeAscending comparefn xs
         in BinaryInsertionSort comparefn (take runLength ys) (drop runLength ys)))"

section \<open>Threads and subscriptions\<close>

text \<open>
  A thread is an object: two threads with the same fields are still two objects, and
  the collection of \<open>getThreads\<close> compares objects by reference. The field \<open>oid\<close> is
  the identity of the object, so that equality of the records is equality of
  references. \<open>ep\<close> is an array of numbers, \<open>title\<close> and \<open>link\<close> are strings.
\<close>

record thread =
  oid :: nat
  title :: string
  link :: string
  ep :: "jsnum list"

text \<open>
  The fields a \<open>Subscription\<close> gets from its constructor. \<open>sid\<close> is \<open>null\<close>
  (\<open>None\<close>) until one is generated; \<open>latest\<close> is a number or \<open>undefined\<close> (\<open>None\<close>).
\<close>

record subscription =
  name :: string
  "keywords" :: "string list"
  sid :: "string option"
  threads :: "thread list"
  latest :: "jsnum option"

text \<open>
  The constructor: a string is split at its commas into the name and the keywords,
  which are sorted as strings; an object is taken over field by field.
\<close>

datatype subscribable = Str string | Obj subscription

fun Subscription :: "subscribable \<Rightarrow> subscription" where
  "Subscription (Str s) =
     (let parts = split_comma s in
      \<lparr>name = hd parts, keywords = sort (tl parts), sid = None, threads = [],
       latest = Some (Fin (- 1) 0)\<rparr>)"
| "Subscription (Obj s) = s"

text \<open>\<open>a[0]\<close> and \<open>a.slice(-1)[0]\<close>: the first and the last element, \<open>undefined\<close> on the empty array.\<close>

fun first_elem :: "'a list \<Rightarrow> 'a option" where
  "first_elem [] = None"
| "first_elem (x # xs) = Some x"

definition last_elem :: "'a list \<Rightarrow> 'a option" where
  "last_elem xs = first_elem (slice xs (- 1) (int (length xs)))"

text \<open>ToNumber, on a number or \<open>undefined\<close>.\<close>

fun ToNumber :: "jsnum option \<Rightarrow> jsnum" where
  "ToNumber None = NaN"
| "ToNumber (Some v) = v"

text \<open>The comparator of \<open>sort\<close>: \<open>(a, b) => b.ep[0] - a.ep[0]\<close>.\<close>

definition latest_first :: "thread \<Rightarrow> thread \<Rightarrow> jsnum" where
  "latest_first a b = js_sub (ToNumber (first_elem (ep b))) (ToNumber (first_elem (ep a)))"

definition Subscription_sort :: "subscription \<Rightarrow> subscription" where
  "Subscription_sort s = s\<lparr>threads := sort_with latest_first (threads s)\<rparr>"

text \<open>
  \<open>add\<close> returns the subscription and what it wrote with \<open>console.error\<close>. A string is
  truthy when it is not empty. \<open>threads[0]\<close> is read after the push and the sort, when
  the array is not empty, so that the case of no first thread is never taken.
\<close>

datatype diagnostic = Cant_add_invalid_thread string thread

definition Subscription_add :: "thread \<Rightarrow> subscription \<Rightarrow> subscription \<times> diagnostic list" where
  "Subscription_add th s =
     (if list_all isFinite (ep th) \<and> title th \<noteq> [] \<and> link th \<noteq> [] then
        (let s1 = s\<lparr>threads := threads s @ [th]\<rparr>;
             s2 = Subscription_sort s1
         in (s2\<lparr>latest := (case first_elem (threads s2) of
                               None \<Rightarrow> None
                             | Some th0 \<Rightarrow> last_elem (ep th0))\<rparr>, []))
      else (s, [Cant_add_invalid_thread (name s) th]))"



subsection \<open>The collection of \<open>getThreads\<close>\<close>

text \<open>
  Modelled from the spec: \<open>XSet\<close> of \<open>./utils\<close>, which is not among the sources. The
  spec describes the result across the tokens as a union with de-duplication by
  thread identity that keeps the order in which a thread is first met. The
  collection is the list of its members in that order; \<open>union(xs, true)\<close> adds the
  members of \<open>xs\<close> that are not yet present, one after the other, and spreading
  the collection gives the list.
\<close>

definition XSet_add :: "'a list \<Rightarrow> 'a \<Rightarrow> 'a list" where
  "XSet_add collection x = (if x \<in> set collection then collection else collection @ [x])"

definition XSet_union :: "'a list \<Rightarrow> 'a list \<Rightarrow> 'a list" where
  "XSet_union collection xs = foldl XSet_add collection xs"

subsection \<open>\<open>getThreads\<close>\<close>

text \<open>\<open>th.ep.includes(v)\<close>, where \<open>v\<close> is a number or \<open>undefined\<close>; \<open>ep\<close> holds numbers.\<close>

fun Array_includes :: "jsnum list \<Rightarrow> jsnum option \<Rightarrow> bool" where
  "Array_includes xs None = False"
| "Array_includes xs (Some v) = list_ex (same_value_zero v) xs"

text \<open>\<open>a[i]\<close> for a natural index: \<open>undefined\<close> past the end.\<close>

definition elem_at :: "'a list \<Rightarrow> nat \<Rightarrow> 'a option" where
  "elem_at xs i = (if i < length xs then Some (xs ! i) else None)"

text \<open>
  The threads one token of the selector stands for: what the body of the loop hands
  to \<open>union\<close>.
\<close>

definition token_threads :: "thread list \<Rightarrow> string \<Rightarrow> thread list" where
  "token_threads ths tok =
     (if isFinite (Number tok) then
        filter (\<lambda>th. Array_includes (ep th) (Some (Number tok))) ths
      else
        (let bounds = sort_default (map Number (split_dots tok));
             epi = elem_at bounds 0;
             epj = elem_at bounds 1;
             head = findIndex (\<lambda>th. Array_includes (ep th) epj) ths;
             tail = findIndex (\<lambda>th. Array_includes (ep th) epi) ths
         in slice ths head (tail + 1)))"

definition Subscription_getThreads :: "subscription \<Rightarrow> string \<Rightarrow> thread list" where
  "Subscription_getThreads s epstr =
     (if epstr = [] \<or> epstr = ''all'' then threads s
      else foldl (\<lambda>collection tok. XSet_union collection (token_threads (threads s) tok))
             [] (split_comma epstr))"

text \<open>A run of \<open>add\<close> and \<open>sort\<close> calls on one subscription, in order.\<close>

datatype call = Add thread | Sort

fun do_call :: "subscription \<Rightarrow> call \<Rightarrow> subscription" where
  "do_call s (Add th) = fst (Subscription_add th s)"
| "do_call s Sort = Subscription_sort s"

definition do_calls :: "subscription \<Rightarrow> call list \<Rightarrow> subscription" where
  "do_calls s cs = foldl do_call s cs"

section \<open>Database\<close>

text \<open>
  \<open>download\<close> reads three optional settings; a missing one is \<open>undefined\<close> (\<open>None\<close>),
  and a call without the second argument has all three missing.
\<close>

record options =
  client :: "string option"
  destination :: "string option"
  jsonrpc :: "string option"

text \<open>
  The fields of a \<open>Database\<close>. \<open>Config\<close> of \<open>./config\<close> is not among the sources:
  the field \<open>config\<close> is its method \<open>get\<close>, from a key to the setting or \<open>undefined\<close>.
\<close>

record database =
  fakedbPath :: string
  config :: "string \<Rightarrow> string option"
  subscriptions :: "subscription list"
  version :: string

text \<open>
  What \<open>download\<close> uses of Node: \<open>__dirname\<close>, \<open>path.resolve\<close> and \<open>JSON.stringify\<close>
  on its two arguments, the thread and the object \<open>{dest, jsonrpc}\<close>.
\<close>

datatype json_arg = Thread_arg thread | Settings_arg "string option" "string option"

record node =
  dirname :: string
  path_resolve :: "string \<Rightarrow> string"
  JSON_stringify :: "json_arg \<Rightarrow> string"

text \<open>\<open>a || b\<close> on strings that may be \<open>undefined\<close>: \<open>a\<close> when it is a non-empty string.\<close>

fun js_or :: "string option \<Rightarrow> string option \<Rightarrow> string option" where
  "js_or None b = b"
| "js_or (Some a) b = (if a = [] then b else Some a)"

text \<open>A value inside a template literal: \<open>undefined\<close> is spelled out.\<close>

fun in_template :: "string option \<Rightarrow> string" where
  "in_template None = ''undefined''"
| "in_template (Some a) = a"

text \<open>
  The call \<open>spawn(command, args, {stdio})\<close>, the event that ends the task, and how the
  promise of \<open>download\<close> is settled by it.
\<close>

record spawn_call =
  command :: string
  args :: "string list"
  stdio :: string

datatype task_event = Close int | Error string

datatype settled = Resolved int | Rejected_code int | Rejected_error string

fun on_event :: "task_event \<Rightarrow> settled" where
  "on_event (Close code) = (if code = 0 then Resolved code else Rejected_code code)"
| "on_event (Error err) = Rejected_error err"

record download_result =
  spawned :: "spawn_call list"
  promise :: "task_event \<Rightarrow> settled"

definition Database_download :: "node \<Rightarrow> database \<Rightarrow> thread \<Rightarrow> options \<Rightarrow> download_result" where
  "Database_download nd db th opts =
     (let dest = js_or (destination opts) (config db ''destination'');
          dclient = js_or (client opts) (config db ''client'');
          djsonrpc = js_or (jsonrpc opts) (config db ''jsonrpc'');
          script = path_resolve nd (dirname nd @ ''/downloaders/'' @ in_template dclient @ ''.js'');
          args0 = map (JSON_stringify nd) [Thread_arg th, Settings_arg dest djsonrpc]
      in \<lparr>spawned = [\<lparr>command = ''node'', args = script # args0, stdio = ''inherit''\<rparr>],
          promise = on_event\<rparr>)"

definition Database_isSupportedClient :: "string \<Rightarrow> bool" where
  "Database_isSupportedClient c = (c \<in> set [''aria2'', ''deluge''])"

section \<open>Notions the properties are stated with\<close>

text \<open>
  Sorted by descending \<open>ep[0]\<close>: every thread's \<open>ep[0]\<close> is \<open>>=\<close> that of every later
  thread, with the comparison of JavaScript.
\<close>

definition descending_ep0 :: "thread list \<Rightarrow> bool" where
  "descending_ep0 ths =
     sorted_wrt (\<lambda>a b. js_ge (ToNumber (first_elem (ep a))) (ToNumber (first_elem (ep b)))) ths"

text \<open>
  \<open>latest\<close> is \<open>-1\<close> when there is no thread, and otherwise the first thread has
  episodes and \<open>latest\<close> is the last of them.
\<close>

definition latest_is_last :: "subscription \<Rightarrow> bool" where
  "latest_is_last s =
     (case threads s of
        [] \<Rightarrow> latest s = Some (Fin (- 1) 0)
      | th # rest \<Rightarrow> ep th \<noteq> [] \<and> latest s = Some (last (ep th)))"

text \<open>
  A list without its repetitions, each member at the place of its first occurrence:
  the order in which the members of the list are first met.
\<close>

fun first_occurrences :: "'a list \<Rightarrow> 'a list" where
  "first_occurrences [] = []"
| "first_occurrences (x # xs) = x # removeAll x (first_occurrences xs)"

text \<open>The value of \<open>ep[0]\<close> when it is a finite number, for the proofs about sorting.\<close>

definition ep0_val :: "thread \<Rightarrow> rat" where
  "ep0_val th = (case first_elem (ep th) of Some (Fin m e) \<Rightarrow> fin_val m e | _ \<Rightarrow> 0)"

text \<open>
  The state that \<open>add\<close> and \<open>sort\<close> keep when every thread has a first episode: the
  threads are in the order of the values of \<open>ep[0]\<close>, largest first, and \<open>latest\<close> is
  the last episode of the first thread.
\<close>

definition in_order :: "subscription \<Rightarrow> bool" where
  "in_order s =
     ((\<forall>th \<in> set (threads s). \<exists>m e. first_elem (ep th) = Some (Fin m e))
      \<and> sorted_wrt (\<lambda>a b. ep0_val b \<le> ep0_val a) (threads s)
      \<and> latest_is_last s)"

subsection \<open>Example data\<close>

definition E1 :: thread where
  "E1 = \<lparr>oid = 1, title = ''E1'', link = ''l1'', ep = [Fin 1 0]\<rparr>"

definition E2 :: thread where
  "E2 = \<lparr>oid = 2, title = ''E2'', link = ''l2'', ep = [Fin 2 0]\<rparr>"

definition E5 :: thread where
  "E5 = \<lparr>oid = 5, title = ''E5'', link = ''l5'', ep = [Fin 5 0]\<rparr>"

definition E10 :: thread where
  "E10 = \<lparr>oid = 10, title = ''E10'', link = ''l10'', ep = [Fin 10 0]\<rparr>"

definition Bad :: thread where
  "Bad = \<lparr>oid = 3, title = ''Bad'', link = ''l3'', ep = [NaN]\<rparr>"

definition No_ep :: thread where
  "No_ep = \<lparr>oid = 0, title = ''E0'', link = ''l0'', ep = []\<rparr>"

definition Show :: subscription where
  "Show = Subscription (Str ''Show,kw'')"

definition Show_1_2 :: subscription where
  "Show_1_2 = do_calls Show [Add E1, Add E2]"

definition Show_2_5_10 :: subscription where
  "Show_2_5_10 = do_calls Show [Add E2, Add E10, Add E5]"

text \<open>
  Values for the parameters of \<open>download\<close>: \<open>path.resolve\<close> on a path that is
  already absolute and normal, and a stand-in for the serialiser.
\<close>

definition a_node :: node where
  "a_node = \<lparr>dirname = ''/app'', path_resolve = (\<lambda>p. p),
             JSON_stringify = (\<lambda>a. case a of Thread_arg th \<Rightarrow> title th | Settings_arg d j \<Rightarrow> in_template d)\<rparr>"

definition a_database :: database where
  "a_database = \<lparr>fakedbPath = ''/app/fakedb.json'',
                 config = (\<lambda>k. if k = ''client'' then Some ''deluge''
                                else if k = ''destination'' then Some ''/tmp'' else None),
                 subscriptions = [], version = ''0.0.0''\<rparr>"


section \<open>Lemmas on the values\<close>

subsection \<open>Numbers\<close>

text \<open>
  \<open>Number\<close> at literals that are not binary64 values: the nearest value, and
  \<open>Infinity\<close> past the largest one; and the shortest digits of a rounded value.
\<close>

lemma Number_rounds:
  "Number ''9007199254740993'' = Fin 9007199254740992 0
   \<and> Number ''2e308'' = PosInf
   \<and> Number_toString (Number ''0.1000000000000000055'') = ''0.1''"
  by code_simp

lemma pow10_split:
  assumes "x \<le> e"
  shows "(10::rat) powi e = 10 ^ nat (e - x) * 10 powi x"
proof -
  have "(10::rat) powi e = 10 powi ((e - x) + x)"
    by simp
  also have "\<dots> = 10 powi (e - x) * 10 powi x"
    by (rule power_int_add) simp
  also have "(10::rat) powi (e - x) = 10 ^ nat (e - x)"
    using assms by (simp add: power_int_nonneg_exp)
  finally show ?thesis .
qed

lemma fin_val_aligned:
  obtains c where "0 < c"
    and "fin_val m e = of_int (m * 10 ^ nat (e - min e f)) * c"
    and "fin_val n f = of_int (n * 10 ^ nat (f - min e f)) * c"
proof
  show "0 < (10::rat) powi (min e f)"
    by simp
  show "fin_val m e = of_int (m * 10 ^ nat (e - min e f)) * 10 powi (min e f)"
    using pow10_split [of "min e f" e] by (simp add: fin_val_def)
  show "fin_val n f = of_int (n * 10 ^ nat (f - min e f)) * 10 powi (min e f)"
    using pow10_split [of "min e f" f] by (simp add: fin_val_def)
qed

lemma js_lt0_sub_Fin:
  "js_lt0 (js_sub (Fin m e) (Fin n f)) \<longleftrightarrow> fin_val m e < fin_val n f"
proof -
  obtain c where c: "0 < c"
    and m: "fin_val m e = of_int (m * 10 ^ nat (e - min e f)) * c"
    and n: "fin_val n f = of_int (n * 10 ^ nat (f - min e f)) * c"
    by (rule fin_val_aligned)
  have "js_lt0 (js_sub (Fin m e) (Fin n f))
      \<longleftrightarrow> m * 10 ^ nat (e - min e f) < n * 10 ^ nat (f - min e f)"
    by (simp add: Let_def)
  also have "\<dots> \<longleftrightarrow> fin_val m e < fin_val n f"
    unfolding m n using c by (simp only: mult_less_cancel_right_pos of_int_less_iff)
  finally show ?thesis .
qed

lemma js_lt_Fin:
  "js_lt (Fin m e) (Fin n f) \<longleftrightarrow> fin_val m e < fin_val n f"
  using js_lt0_sub_Fin [of m e n f] by (simp del: js_sub.simps)

lemma js_ge_Fin:
  "js_ge (Fin m e) (Fin n f) \<longleftrightarrow> fin_val n f \<le> fin_val m e"
  by (simp add: js_ge_def js_lt_Fin not_less del: js_lt.simps)

lemma same_value_zero_Fin:
  "same_value_zero (Fin m e) (Fin n f) \<longleftrightarrow> fin_val m e = fin_val n f"
proof -
  obtain c where c: "0 < c"
    and m: "fin_val m e = of_int (m * 10 ^ nat (e - min e f)) * c"
    and n: "fin_val n f = of_int (n * 10 ^ nat (f - min e f)) * c"
    by (rule fin_val_aligned)
  have "same_value_zero (Fin m e) (Fin n f)
      \<longleftrightarrow> m * 10 ^ nat (e - min e f) = n * 10 ^ nat (f - min e f)"
    by (simp add: Let_def)
  also have "\<dots> \<longleftrightarrow> fin_val m e = fin_val n f"
    unfolding m n using c by (simp only: mult_cancel_right of_int_eq_iff) auto
  finally show ?thesis .
qed


subsection \<open>Sorting with a comparator\<close>

lemma js_lt0_SortCompare [simp]: "js_lt0 (SortCompare c x y) = js_lt0 (c x y)"
  by (cases "c x y") (simp_all add: SortCompare_def)

text \<open>The sorted array has the elements of the array, as many as it.\<close>

lemma set_take_drop: "set (take n xs) \<union> set (drop n xs) = set xs"
  by (metis append_take_drop_id set_append)

lemma set_insert_pivot: "set (insert_pivot c a pivot) = insert pivot (set a)"
  using set_take_drop [of _ a] by (auto simp: insert_pivot_def Let_def)

lemma length_insert_pivot: "length (insert_pivot c a pivot) = Suc (length a)"
  by (simp add: insert_pivot_def Let_def)

lemma set_BinaryInsertionSort: "set (BinaryInsertionSort c run rest) = set run \<union> set rest"
  unfolding BinaryInsertionSort_def
  by (induction rest arbitrary: run) (auto simp: set_insert_pivot)

lemma length_BinaryInsertionSort:
  "length (BinaryInsertionSort c run rest) = length run + length rest"
  unfolding BinaryInsertionSort_def
  by (induction rest arbitrary: run) (auto simp: length_insert_pivot)

lemma run_after_le: "run_after c d prev rest \<le> length rest"
  by (induction rest arbitrary: prev) (auto simp: Let_def)

lemma CountRun_cases:
  assumes "CountRunAndMakeAscending c xs = (n, ys)"
  shows "ys = xs \<or> ys = rev (take n xs) @ drop n xs"
  using assms by (auto simp: CountRunAndMakeAscending_def Let_def split: list.splits if_splits)

lemma CountRun_set:
  assumes "CountRunAndMakeAscending c xs = (n, ys)"
  shows "set ys = set xs \<and> length ys = length xs"
  using CountRun_cases [OF assms] set_take_drop [of n xs] by auto

lemma set_sort_with: "set (sort_with c xs) = set xs"
proof (cases "length xs < 2")
  case True
  then show ?thesis by (simp add: sort_with_def)
next
  case False
  obtain n ys where r: "CountRunAndMakeAscending c xs = (n, ys)"
    by (cases "CountRunAndMakeAscending c xs")
  from CountRun_set [OF r] have "set (take n ys) \<union> set (drop n ys) = set xs"
    by (simp add: set_take_drop)
  with False r show ?thesis
    by (simp add: sort_with_def set_BinaryInsertionSort)
qed

lemma length_sort_with: "length (sort_with c xs) = length xs"
proof (cases "length xs < 2")
  case True
  then show ?thesis by (simp add: sort_with_def)
next
  case False
  obtain n ys where r: "CountRunAndMakeAscending c xs = (n, ys)"
    by (cases "CountRunAndMakeAscending c xs")
  from CountRun_set [OF r] False r show ?thesis
    by (simp add: sort_with_def length_BinaryInsertionSort)
qed

text \<open>An array with no two neighbours out of order is one run and is left as it is.\<close>

lemma run_after_chain:
  "successively (\<lambda>p q. if d then js_lt0 (c q p) else \<not> js_lt0 (c q p))
     (prev # take (run_after c d prev rest) rest)"
proof (induction rest arbitrary: prev)
  case Nil
  then show ?case by simp
next
  case (Cons cur rest)
  from Cons [of cur] show ?case
    by (auto simp: Let_def)
qed

lemma run_after_full:
  "successively (\<lambda>p q. \<not> js_lt0 (c q p)) (prev # rest) \<Longrightarrow> run_after c False prev rest = length rest"
  by (induction rest arbitrary: prev) (auto simp: Let_def)

lemma sort_with_unchanged:
  assumes "successively (\<lambda>p q. \<not> js_lt0 (c q p)) xs"
  shows "sort_with c xs = xs"
proof (cases xs)
  case Nil
  then show ?thesis by (simp add: sort_with_def)
next
  case (Cons x0 tl0)
  show ?thesis
  proof (cases tl0)
    case Nil
    with Cons show ?thesis by (simp add: sort_with_def)
  next
    case (Cons x1 rest)
    with \<open>xs = x0 # tl0\<close> have xs: "xs = x0 # x1 # rest"
      by simp
    from assms have a: "\<not> js_lt0 (c x1 x0)" and b: "successively (\<lambda>p q. \<not> js_lt0 (c q p)) (x1 # rest)"
      by (simp_all add: xs)
    from run_after_full [OF b] a
    have "CountRunAndMakeAscending c xs = (length xs, xs)"
      by (simp add: CountRunAndMakeAscending_def xs)
    then show ?thesis
      by (simp add: sort_with_def BinaryInsertionSort_def xs)
  qed
qed

text \<open>
  With a comparator that agrees with an order on a key, the result is sorted by the key.
\<close>

lemma transp_desc: "transp (\<lambda>a b. (k b :: rat) \<le> k a)"
  by (auto simp: transp_def)

lemma CountRun_sorted:
  fixes k :: "'a \<Rightarrow> rat"
  assumes cons: "\<And>a b. a \<in> set xs \<Longrightarrow> b \<in> set xs \<Longrightarrow> js_lt0 (c a b) \<longleftrightarrow> k b < k a"
    and r: "CountRunAndMakeAscending c xs = (n, ys)"
  shows "sorted_wrt (\<lambda>a b. k b \<le> k a) (take n ys)"
proof (cases xs)
  case Nil
  with r show ?thesis by (simp add: CountRunAndMakeAscending_def)
next
  case (Cons x0 tl0)
  show ?thesis
  proof (cases tl0)
    case Nil
    with Cons r show ?thesis by (auto simp: CountRunAndMakeAscending_def)
  next
    case (Cons x1 rest)
    with \<open>xs = x0 # tl0\<close> have xs: "xs = x0 # x1 # rest"
      by simp
    define d where "d = js_lt0 (c x1 x0)"
    define m where "m = run_after c d x1 rest"
    let ?run = "x0 # x1 # take m rest"
    have n: "n = Suc (Suc m)"
      and ys: "ys = (if d then rev (take n xs) @ drop n xs else xs)"
      using r by (auto simp: CountRunAndMakeAscending_def xs Let_def d_def m_def)
    have run: "take n xs = ?run"
      by (simp add: n xs)
    have sub: "set ?run \<subseteq> set xs"
      using set_take_subset [of m rest] by (auto simp: xs)
    have chain: "successively (\<lambda>p q. if d then js_lt0 (c q p) else \<not> js_lt0 (c q p)) ?run"
      using run_after_chain [of d c x1 rest] by (simp add: m_def d_def)
    show ?thesis
    proof (cases d)
      case False
      have "successively (\<lambda>a b. k b \<le> k a) ?run"
      proof (rule successively_mono [OF chain])
        fix p q
        assume pq: "p \<in> set ?run" "q \<in> set ?run"
          and rel: "if d then js_lt0 (c q p) else \<not> js_lt0 (c q p)"
        from pq sub have "q \<in> set xs" "p \<in> set xs"
          by blast+
        from cons [OF this] rel False show "k q \<le> k p"
          by simp
      qed
      then have "sorted_wrt (\<lambda>a b. k b \<le> k a) ?run"
        by (simp only: successively_conv_sorted_wrt [OF transp_desc])
      with False show ?thesis
        by (simp only: ys run if_False)
    next
      case True
      have "successively (\<lambda>a b. k a \<le> k b) ?run"
      proof (rule successively_mono [OF chain])
        fix p q
        assume pq: "p \<in> set ?run" "q \<in> set ?run"
          and rel: "if d then js_lt0 (c q p) else \<not> js_lt0 (c q p)"
        from pq sub have "q \<in> set xs" "p \<in> set xs"
          by blast+
        from cons [OF this] rel True show "k p \<le> k q"
          by simp
      qed
      then have "successively (\<lambda>a b. k b \<le> k a) (rev ?run)"
        by (simp only: successively_rev)
      then have s: "sorted_wrt (\<lambda>a b. k b \<le> k a) (rev ?run)"
        by (simp only: successively_conv_sorted_wrt [OF transp_desc])
      have "length (rev (take n xs)) = n"
        by (simp add: n xs) (use run_after_le [of c d x1 rest] in \<open>simp add: m_def\<close>)
      then have "take n ys = rev (take n xs)"
        using True by (simp add: ys)
      with s show ?thesis
        by (simp only: run)
    qed
  qed
qed

lemma insertion_point_place:
  fixes k :: "'a \<Rightarrow> rat"
  assumes "left \<le> right" "right \<le> length a"
    and "\<forall>i<left. k pivot \<le> k (a ! i)"
    and "\<forall>i. right \<le> i \<and> i < length a \<longrightarrow> k (a ! i) < k pivot"
    and "sorted_wrt (\<lambda>x y. k y \<le> k x) a"
    and "\<And>x. x \<in> set a \<Longrightarrow> js_lt0 (c pivot x) \<longleftrightarrow> k x < k pivot"
  shows "insertion_point c pivot a left right \<le> length a
       \<and> (\<forall>i<insertion_point c pivot a left right. k pivot \<le> k (a ! i))
       \<and> (\<forall>i. insertion_point c pivot a left right \<le> i \<and> i < length a \<longrightarrow> k (a ! i) < k pivot)"
  using assms
proof (induction c pivot a left right rule: insertion_point.induct)
  case (1 c pivot a left right)
  show ?case
  proof (cases "left < right")
    case False
    with "1.prems" show ?thesis
      by (subst (1 2 3) insertion_point.simps) auto
  next
    case True
    define mid where "mid = left + (right - left) div 2"
    have mid: "left \<le> mid" "mid < right" "mid < length a"
      using True "1.prems"(2) by (auto simp: mid_def)
    have nth: "k (a ! j) \<le> k (a ! i)" if "i \<le> j" "j < length a" for i j
      using that "1.prems"(5) by (cases "i = j") (auto simp: sorted_wrt_iff_nth_less)
    show ?thesis
    proof (cases "js_lt0 (SortCompare c pivot (a ! mid))")
      case lt: True
      then have "k (a ! mid) < k pivot"
        using "1.prems"(6) [of "a ! mid"] mid by simp
      then have "\<forall>i. mid \<le> i \<and> i < length a \<longrightarrow> k (a ! i) < k pivot"
        using nth by (meson le_less_trans)
      with "1.IH"(1) [OF True mid_def lt] mid "1.prems"
      have "insertion_point c pivot a left mid \<le> length a
          \<and> (\<forall>i<insertion_point c pivot a left mid. k pivot \<le> k (a ! i))
          \<and> (\<forall>i. insertion_point c pivot a left mid \<le> i \<and> i < length a \<longrightarrow> k (a ! i) < k pivot)"
        by auto
      then show ?thesis
        using True lt by (subst (1 2 3) insertion_point.simps) (simp add: mid_def Let_def)
    next
      case ge: False
      then have "k pivot \<le> k (a ! mid)"
        using "1.prems"(6) [of "a ! mid"] mid by simp
      then have "\<forall>i<mid + 1. k pivot \<le> k (a ! i)"
        using nth mid by (metis Suc_eq_plus1 less_Suc_eq_le order_trans)
      with "1.IH"(2) [OF True mid_def ge] mid "1.prems"
      have "insertion_point c pivot a (mid + 1) right \<le> length a
          \<and> (\<forall>i<insertion_point c pivot a (mid + 1) right. k pivot \<le> k (a ! i))
          \<and> (\<forall>i. insertion_point c pivot a (mid + 1) right \<le> i \<and> i < length a \<longrightarrow> k (a ! i) < k pivot)"
        by auto
      then show ?thesis
        using True ge by (subst (1 2 3) insertion_point.simps) (simp add: mid_def Let_def)
    qed
  qed
qed

lemma sorted_insert_pivot:
  fixes k :: "'a \<Rightarrow> rat"
  assumes "sorted_wrt (\<lambda>x y. k y \<le> k x) a"
    and "\<And>x. x \<in> set a \<Longrightarrow> js_lt0 (c pivot x) \<longleftrightarrow> k x < k pivot"
  shows "sorted_wrt (\<lambda>x y. k y \<le> k x) (insert_pivot c a pivot)"
proof -
  define p where "p = insertion_point c pivot a 0 (length a)"
  have p: "p \<le> length a" "\<forall>i<p. k pivot \<le> k (a ! i)"
    "\<forall>i. p \<le> i \<and> i < length a \<longrightarrow> k (a ! i) < k pivot"
    using insertion_point_place [of 0 "length a" a k pivot c] assms by (auto simp: p_def)
  have before: "k pivot \<le> k x" if "x \<in> set (take p a)" for x
  proof -
    from that obtain i where "i < p" "x = a ! i"
      using p(1) by (auto simp: in_set_conv_nth)
    with p(2) show ?thesis by simp
  qed
  have after: "k y < k pivot" if "y \<in> set (drop p a)" for y
  proof -
    from that obtain i where "i < length a - p" "y = a ! (p + i)"
      using p(1) by (auto simp: in_set_conv_nth)
    with p(3) show ?thesis by simp
  qed
  have "sorted_wrt (\<lambda>x y. k y \<le> k x) (take p a @ drop p a)"
    using assms(1) by simp
  then have "sorted_wrt (\<lambda>x y. k y \<le> k x) (take p a @ pivot # drop p a)"
    using before after by (fastforce simp: sorted_wrt_append)
  then show ?thesis
    by (simp add: insert_pivot_def p_def Let_def)
qed

lemma sorted_BinaryInsertionSort:
  fixes k :: "'a \<Rightarrow> rat"
  assumes "sorted_wrt (\<lambda>x y. k y \<le> k x) run"
    and "\<And>a b. a \<in> set run \<union> set rest \<Longrightarrow> b \<in> set run \<union> set rest \<Longrightarrow> js_lt0 (c a b) \<longleftrightarrow> k b < k a"
  shows "sorted_wrt (\<lambda>x y. k y \<le> k x) (BinaryInsertionSort c run rest)"
  using assms unfolding BinaryInsertionSort_def
proof (induction rest arbitrary: run)
  case Nil
  then show ?case by simp
next
  case (Cons pivot rest)
  have "sorted_wrt (\<lambda>x y. k y \<le> k x) (insert_pivot c run pivot)"
    using Cons.prems by (intro sorted_insert_pivot) auto
  moreover have "js_lt0 (c a b) \<longleftrightarrow> k b < k a"
    if "a \<in> set (insert_pivot c run pivot) \<union> set rest" "b \<in> set (insert_pivot c run pivot) \<union> set rest" for a b
    using that Cons.prems(2) [of a b] by (auto simp: set_insert_pivot)
  ultimately show ?case
    using Cons.IH [of "insert_pivot c run pivot"] by simp
qed

lemma sorted_sort_with:
  fixes k :: "'a \<Rightarrow> rat"
  assumes "\<And>a b. a \<in> set xs \<Longrightarrow> b \<in> set xs \<Longrightarrow> js_lt0 (c a b) \<longleftrightarrow> k b < k a"
  shows "sorted_wrt (\<lambda>a b. k b \<le> k a) (sort_with c xs)"
proof (cases "length xs < 2")
  case True
  then have "length xs \<le> 1" by simp
  then show ?thesis
    using True by (simp add: sort_with_def sorted_wrt01)
next
  case False
  obtain n ys where r: "CountRunAndMakeAscending c xs = (n, ys)"
    by (cases "CountRunAndMakeAscending c xs")
  have s: "set (take n ys) \<union> set (drop n ys) = set xs"
    using CountRun_set [OF r] by (simp add: set_take_drop)
  have "sorted_wrt (\<lambda>a b. k b \<le> k a) (BinaryInsertionSort c (take n ys) (drop n ys))"
    using CountRun_sorted [OF assms r] assms by (intro sorted_BinaryInsertionSort) (auto simp: s)
  with False r show ?thesis
    by (simp add: sort_with_def)
qed

subsection \<open>Arrays, strings and the collection\<close>

lemma findIndex_ge: "- 1 \<le> findIndex P xs"
  by (induction xs) (auto simp: Let_def)

lemma findIndex_less: "findIndex P xs < int (length xs)"
  by (induction xs) (auto simp: Let_def)

lemma findIndex_absent: "\<not> list_ex P xs \<Longrightarrow> findIndex P xs = - 1"
  by (induction xs) (auto simp: Let_def)

lemma findIndex_present: "list_ex P xs \<Longrightarrow> 0 \<le> findIndex P xs"
  using findIndex_ge [of P]
  by (induction xs) (auto simp: Let_def)

lemma slice_to_0: "slice xs h 0 = []"
  by (simp add: slice_def Let_def)

lemma slice_from_minus_1:
  assumes "0 \<le> t" "t < int (length xs)"
  shows "slice xs (- 1) (t + 1) = (if t = int (length xs) - 1 then [last xs] else [])"
proof (cases "t = int (length xs) - 1")
  case True
  from assms have ne: "xs \<noteq> []" by auto
  have "slice xs (- 1) (t + 1) = take 1 (drop (length xs - 1) xs)"
    using assms True ne by (simp add: slice_def Let_def nat_diff_distrib')
  also have "drop (length xs - 1) xs = [last xs]"
    using ne by (metis append_butlast_last_id append_eq_conv_conj length_butlast)
  finally show ?thesis using True by simp
next
  case False
  with assms show ?thesis by (simp add: slice_def Let_def)
qed

lemma split_at_comma_no_comma: "CHR '','' \<notin> set s \<Longrightarrow> split_at_comma cur s = [cur @ s]"
  by (induction s arbitrary: cur) auto

lemma removeAll_first_occurrences:
  "first_occurrences (removeAll x xs) = removeAll x (first_occurrences xs)"
  by (induction xs) (auto simp: removeAll_filter_not_eq intro: filter_cong)

lemma set_first_occurrences: "set (first_occurrences xs) = set xs"
  by (induction xs) auto

lemma distinct_first_occurrences: "distinct (first_occurrences xs)"
  by (induction xs) (auto simp: distinct_removeAll)

lemma XSet_add_old: "x \<in> set c \<Longrightarrow> XSet_add c x = c"
  by (simp add: XSet_add_def)

lemma XSet_add_new: "x \<notin> set c \<Longrightarrow> XSet_add c x = c @ [x]"
  by (simp add: XSet_add_def)

lemma foldl_XSet_add:
  "foldl XSet_add c xs = c @ first_occurrences (filter (\<lambda>x. x \<notin> set c) xs)"
proof (induction xs arbitrary: c)
  case Nil
  then show ?case by simp
next
  case (Cons x xs)
  show ?case
  proof (cases "x \<in> set c")
    case True
    then show ?thesis by (simp add: XSet_add_old Cons.IH)
  next
    case False
    have "filter (\<lambda>y. y \<notin> set (c @ [x])) xs = removeAll x (filter (\<lambda>y. y \<notin> set c) xs)"
      by (induction xs) auto
    then show ?thesis
      using False by (simp add: XSet_add_new Cons.IH removeAll_first_occurrences)
  qed
qed

lemma XSet_union_fold:
  "foldl (\<lambda>collection tok. XSet_union collection (f tok)) c toks
     = foldl XSet_add c (concat (map f toks))"
  by (induction toks arbitrary: c) (simp_all add: XSet_union_def)


subsection \<open>\<open>add\<close> and the selector of one token\<close>

lemma add_valid:
  assumes "list_all isFinite (ep th)" "title th \<noteq> []" "link th \<noteq> []"
  shows "threads (fst (Subscription_add th s)) = sort_with latest_first (threads s @ [th])"
    and "latest (fst (Subscription_add th s))
           = (case first_elem (sort_with latest_first (threads s @ [th])) of
                None \<Rightarrow> None | Some th0 \<Rightarrow> last_elem (ep th0))"
    and "snd (Subscription_add th s) = []"
  using assms by (simp_all add: Subscription_add_def Subscription_sort_def Let_def)

lemma last_elem_Nil: "last_elem [] = None"
  by (simp add: last_elem_def slice_def)

lemma threads_new: "threads (Subscription (Str str)) = []"
  by (simp add: Let_def)

lemma getThreads_tokens:
  assumes "epstr \<noteq> []" "epstr \<noteq> ''all''"
  shows "Subscription_getThreads s epstr
           = first_occurrences (concat (map (token_threads (threads s)) (split_comma epstr)))"
  using assms by (simp add: Subscription_getThreads_def XSet_union_fold foldl_XSet_add)

lemma getThreads_single_token:
  assumes "CHR '','' \<notin> set tok" "tok \<noteq> []" "tok \<noteq> ''all''"
  shows "Subscription_getThreads s tok = first_occurrences (token_threads (threads s) tok)"
  using assms by (simp add: getThreads_tokens split_comma_def split_at_comma_no_comma)

section \<open>The range token\<close>

text \<open>
  C1. The claim: a range token \<open>A..B\<close> whose endpoints are finite numbers that occur
  in the thread list is resolved with \<open>lo = min(A,B)\<close> and \<open>hi = max(A,B)\<close>, and gives
  the threads from the first one with \<open>hi\<close> through the first one with \<open>lo\<close>. The code
  orders the two numbers with \<open>sort()\<close>, which compares their strings, so that \<open>10\<close>
  comes before \<open>2\<close>: with the episodes 10, 5 and 2 present, \<open>2..10\<close> and \<open>10..2\<close>
  both give no thread at all, where the claim gives all three.
\<close>

theorem getThreads_range_2_10:
  "threads Show_2_5_10 = [E10, E5, E2]
   \<and> sort_default (map Number (split_dots ''2..10'')) = [Fin 10 0, Fin 2 0]
   \<and> Subscription_getThreads Show_2_5_10 ''2..10'' = []
   \<and> Subscription_getThreads Show_2_5_10 ''10..2'' = []"
  by code_simp

text \<open>
  C2. The claim: a range token with a boundary that no thread has makes \<open>getThreads\<close>
  report an error. The code has no error on this path. What it does, proved here:
  \<open>findIndex\<close> gives \<open>-1\<close> and the slice is taken with it. With \<open>epi\<close> and \<open>epj\<close> the
  first and second boundary in string order, the token stands for no thread, except
  that it stands for the last thread alone when \<open>epj\<close> is the absent one and the
  first thread with \<open>epi\<close> is the last thread. A selector that is this one token gives
  the same.
\<close>

theorem range_boundary_absent:
  fixes s :: subscription and tok :: string
  defines "bounds \<equiv> sort_default (map Number (split_dots tok))"
  defines "epi \<equiv> elem_at bounds 0" and "epj \<equiv> elem_at bounds 1"
  defines "tail \<equiv> findIndex (\<lambda>th. Array_includes (ep th) epi) (threads s)"
  defines "r \<equiv> (if threads s \<noteq> [] \<and> tail = int (length (threads s)) - 1
                 then [last (threads s)] else [])"
  assumes "\<not> isFinite (Number tok)"
    and "\<not> list_ex (\<lambda>th. Array_includes (ep th) epi) (threads s)
       \<or> \<not> list_ex (\<lambda>th. Array_includes (ep th) epj) (threads s)"
  shows "token_threads (threads s) tok = r
       \<and> (CHR '','' \<notin> set tok \<and> tok \<noteq> ''all'' \<longrightarrow> Subscription_getThreads s tok = r)"
proof -
  let ?ths = "threads s"
  let ?i = "\<lambda>th. Array_includes (ep th) epi"
  let ?j = "\<lambda>th. Array_includes (ep th) epj"
  have tt: "token_threads ?ths tok = slice ?ths (findIndex ?j ?ths) (tail + 1)"
    using assms(6) by (simp add: token_threads_def Let_def bounds_def epi_def epj_def tail_def)
  have r: "token_threads ?ths tok = r"
  proof (cases "list_ex ?i ?ths")
    case False
    then have "tail = - 1"
      unfolding tail_def by (rule findIndex_absent)
    moreover from this have "?ths \<noteq> [] \<Longrightarrow> tail \<noteq> int (length ?ths) - 1"
      by (cases "?ths") auto
    ultimately show ?thesis
      by (auto simp: tt r_def slice_to_0)
  next
    case True
    with assms(7) have "\<not> list_ex ?j ?ths"
      by blast
    then have j: "findIndex ?j ?ths = - 1"
      by (rule findIndex_absent)
    from True have ne: "?ths \<noteq> []"
      by auto
    have "0 \<le> tail" "tail < int (length ?ths)"
      unfolding tail_def using True by (simp_all add: findIndex_present findIndex_less)
    from slice_from_minus_1 [OF this] ne show ?thesis
      by (simp add: tt j r_def)
  qed
  have "tok \<noteq> []"
    using assms(6) by (auto simp: Number_def trim_def)
  moreover have "first_occurrences r = r"
    by (simp add: r_def)
  ultimately show ?thesis
    using r by (auto simp: getThreads_single_token)
qed

text \<open>
  The theorem at \<open>1..9\<close> on the threads of the episodes 2 and 1: 9 is absent, the
  first thread with 1 is the last one, and the token gives that thread.
\<close>

theorem range_boundary_absent_witness:
  "token_threads (threads Show_1_2) ''1..9'' = [E1]
   \<and> Subscription_getThreads Show_1_2 ''1..9'' = [E1]"
proof -
  let ?bounds = "sort_default (map Number (split_dots ''1..9''))"
  have a: "\<not> isFinite (Number ''1..9'')"
    by code_simp
  have b: "\<not> list_ex (\<lambda>th. Array_includes (ep th) (elem_at ?bounds 0)) (threads Show_1_2)
         \<or> \<not> list_ex (\<lambda>th. Array_includes (ep th) (elem_at ?bounds 1)) (threads Show_1_2)"
    by code_simp
  have r: "(if threads Show_1_2 \<noteq> []
              \<and> findIndex (\<lambda>th. Array_includes (ep th) (elem_at ?bounds 0)) (threads Show_1_2)
                  = int (length (threads Show_1_2)) - 1
            then [last (threads Show_1_2)] else []) = [E1]"
    by code_simp
  from range_boundary_absent [OF a b] show ?thesis
    unfolding r by simp
qed

text \<open>
  Against the claim as stated: with the episodes 10, 5 and 2 present and 9 absent,
  \<open>2..9\<close> returns the thread of episode 2 and nothing is reported.
\<close>

theorem getThreads_range_2_9:
  "threads Show_2_5_10 = [E10, E5, E2]
   \<and> sort_default (map Number (split_dots ''2..9'')) = [Fin 2 0, Fin 9 0]
   \<and> Subscription_getThreads Show_2_5_10 ''2..9'' = [E2]"
  by code_simp

section \<open>\<open>download\<close> and the supported clients\<close>

text \<open>
  C3. The claim: with a client other than \<open>aria2\<close> and \<open>deluge\<close>, \<open>download\<close> fails
  and spawns no process. The code never looks at the set of supported clients in
  \<open>download\<close>. What it does, proved here for every thread and every options value:
  it spawns exactly one \<open>node\<close> process, on the script \<open>downloaders/<client>.js\<close> of
  whatever client the options or the configuration give, with the thread and the
  settings as arguments, and the promise follows the end of that process.
  \<open>isSupportedClient\<close> is a check of its own, true for \<open>aria2\<close> and \<open>deluge\<close> only.
\<close>

theorem download_spawns_for_any_client:
  fixes nd :: node and db :: database and th :: thread and opts :: options
  defines "dest \<equiv> js_or (destination opts) (config db ''destination'')"
  defines "dclient \<equiv> js_or (client opts) (config db ''client'')"
  defines "djsonrpc \<equiv> js_or (jsonrpc opts) (config db ''jsonrpc'')"
  shows "spawned (Database_download nd db th opts)
           = [\<lparr>command = ''node'',
               args = [path_resolve nd (dirname nd @ ''/downloaders/'' @ in_template dclient @ ''.js''),
                       JSON_stringify nd (Thread_arg th),
                       JSON_stringify nd (Settings_arg dest djsonrpc)],
               stdio = ''inherit''\<rparr>]
       \<and> promise (Database_download nd db th opts) = on_event
       \<and> (Database_isSupportedClient c \<longleftrightarrow> c = ''aria2'' \<or> c = ''deluge'')"
  by (simp add: Database_download_def Database_isSupportedClient_def
      dest_def dclient_def djsonrpc_def Let_def)

text \<open>
  Against the claim as stated: \<open>ftp\<close> is not a supported client, and \<open>download\<close> with
  \<open>{client: "ftp"}\<close> spawns \<open>node /app/downloaders/ftp.js\<close>.
\<close>

theorem download_ftp_spawns:
  "\<not> Database_isSupportedClient ''ftp''
   \<and> spawned (Database_download a_node a_database E1
        \<lparr>client = Some ''ftp'', destination = None, jsonrpc = None\<rparr>)
     = [\<lparr>command = ''node'',
         args = [''/app/downloaders/ftp.js'',
                 JSON_stringify a_node (Thread_arg E1),
                 JSON_stringify a_node (Settings_arg (Some ''/tmp'') None)],
         stdio = ''inherit''\<rparr>]"
  by (simp add: Database_isSupportedClient_def Database_download_def a_node_def a_database_def)

section \<open>\<open>add\<close>\<close>

text \<open>
  C4. A thread with an \<open>ep\<close> element that is not finite, or an empty title, or an
  empty link, is rejected by \<open>add\<close>: the subscription comes back as it was, \<open>threads\<close>
  and \<open>latest\<close> included, and one message goes to \<open>console.error\<close>.
\<close>

theorem add_invalid_rejected:
  assumes "(\<exists>e \<in> set (ep th). \<not> isFinite e) \<or> title th = [] \<or> link th = []"
  shows "Subscription_add th s = (s, [Cant_add_invalid_thread (name s) th])"
  using assms by (auto simp: Subscription_add_def list_all_iff)

text \<open>Scenario C of the specification: the thread with \<open>ep = [NaN]\<close>.\<close>

theorem add_invalid_rejected_witness:
  "threads Show_1_2 = [E2, E1]
   \<and> Subscription_add Bad Show_1_2 = (Show_1_2, [Cant_add_invalid_thread ''Show'' Bad])"
proof -
  have h: "(\<exists>e \<in> set (ep Bad). \<not> isFinite e) \<or> title Bad = [] \<or> link Bad = []"
    by (simp add: Bad_def)
  have n: "name Show_1_2 = ''Show''" "threads Show_1_2 = [E2, E1]"
    by code_simp+
  from add_invalid_rejected [OF h, of Show_1_2] show ?thesis
    by (simp add: n)
qed

text \<open>
  C10. A thread with a non-empty title and link and the empty \<open>ep\<close> is accepted by
  \<open>add\<close>: nothing is reported and the thread is among the threads, which are one
  more. When it is the first thread afterwards, \<open>latest\<close> is the last element of an
  empty array, that is \<open>undefined\<close>.
\<close>

theorem add_empty_ep_accepted:
  assumes "title th \<noteq> []" "link th \<noteq> []" "ep th = []"
  shows "snd (Subscription_add th s) = []
       \<and> set (threads (fst (Subscription_add th s))) = insert th (set (threads s))
       \<and> length (threads (fst (Subscription_add th s))) = length (threads s) + 1
       \<and> (first_elem (threads (fst (Subscription_add th s))) = Some th
            \<longrightarrow> latest (fst (Subscription_add th s)) = None)"
proof -
  have v: "list_all isFinite (ep th)"
    using assms(3) by simp
  show ?thesis
    using assms(3)
    by (simp add: add_valid [OF v assms(1,2)] set_sort_with length_sort_with last_elem_Nil)
qed

text \<open>The theorem on the new subscription: the thread is the only one, hence the first.\<close>

theorem add_empty_ep_accepted_witness:
  "threads (fst (Subscription_add No_ep Show)) = [No_ep]
   \<and> latest (fst (Subscription_add No_ep Show)) = None
   \<and> snd (Subscription_add No_ep Show) = []"
proof -
  have a: "title No_ep \<noteq> []" "link No_ep \<noteq> []" "ep No_ep = []"
    by (simp_all add: No_ep_def)
  have b: "threads Show = []"
    by code_simp
  from add_empty_ep_accepted [OF a, of Show] show ?thesis
    by (cases "threads (fst (Subscription_add No_ep Show))") (auto simp: b)
qed

section \<open>The order of the threads and \<open>latest\<close>\<close>

lemma fin_first_valid:
  assumes "list_all isFinite (ep th)" "ep th \<noteq> []"
  shows "\<exists>m e. first_elem (ep th) = Some (Fin m e)"
proof (cases "ep th")
  case Nil
  with assms show ?thesis by simp
next
  case (Cons x xs)
  with assms(1) show ?thesis by (cases x) simp_all
qed

lemma latest_first_fin:
  assumes "first_elem (ep a) = Some (Fin m e)" "first_elem (ep b) = Some (Fin n f)"
  shows "js_lt0 (latest_first a b) \<longleftrightarrow> ep0_val b < ep0_val a"
  using assms js_lt0_sub_Fin [of n f m e]
  by (simp add: latest_first_def ep0_val_def del: js_sub.simps)

lemma descending_fin:
  assumes "\<forall>th \<in> set ths. \<exists>m e. first_elem (ep th) = Some (Fin m e)"
    and "sorted_wrt (\<lambda>a b. ep0_val b \<le> ep0_val a) ths"
  shows "descending_ep0 ths"
  unfolding descending_ep0_def
proof (rule sorted_wrt_mono_rel [OF _ assms(2)])
  fix a b
  assume "a \<in> set ths" "b \<in> set ths" "ep0_val b \<le> ep0_val a"
  moreover from this assms(1) obtain m e n f
    where "first_elem (ep a) = Some (Fin m e)" "first_elem (ep b) = Some (Fin n f)"
    by blast
  ultimately show "js_ge (ToNumber (first_elem (ep a))) (ToNumber (first_elem (ep b)))"
    by (simp add: js_ge_Fin ep0_val_def)
qed

lemma sort_threads_fin:
  assumes "\<forall>th \<in> set ths. \<exists>m e. first_elem (ep th) = Some (Fin m e)"
  shows "sorted_wrt (\<lambda>a b. ep0_val b \<le> ep0_val a) (sort_with latest_first ths)"
proof (rule sorted_sort_with)
  fix a b
  assume "a \<in> set ths" "b \<in> set ths"
  with assms obtain m e n f
    where "first_elem (ep a) = Some (Fin m e)" "first_elem (ep b) = Some (Fin n f)"
    by blast
  then show "js_lt0 (latest_first a b) \<longleftrightarrow> ep0_val b < ep0_val a"
    by (rule latest_first_fin)
qed

lemma sort_threads_unchanged:
  assumes "\<forall>th \<in> set ths. \<exists>m e. first_elem (ep th) = Some (Fin m e)"
    and "sorted_wrt (\<lambda>a b. ep0_val b \<le> ep0_val a) ths"
  shows "sort_with latest_first ths = ths"
proof (rule sort_with_unchanged)
  have "successively (\<lambda>a b. ep0_val b \<le> ep0_val a) ths"
    using assms(2) by (rule successively_if_sorted_wrt)
  then show "successively (\<lambda>p q. \<not> js_lt0 (latest_first q p)) ths"
  proof (rule successively_mono)
    fix p q
    assume "p \<in> set ths" "q \<in> set ths" "ep0_val q \<le> ep0_val p"
    moreover from this assms(1) obtain m e n f
      where "first_elem (ep q) = Some (Fin m e)" "first_elem (ep p) = Some (Fin n f)"
      by blast
    ultimately show "\<not> js_lt0 (latest_first q p)"
      by (simp add: latest_first_fin)
  qed
qed

lemma last_elem_last: "xs \<noteq> [] \<Longrightarrow> last_elem xs = Some (last xs)"
  using slice_from_minus_1 [of "int (length xs) - 1" xs]
  by (simp add: last_elem_def)

lemma do_call_in_order:
  assumes "in_order s" and "\<forall>th. c = Add th \<longrightarrow> ep th \<noteq> []"
  shows "in_order (do_call s c)"
proof (cases c)
  case Sort
  from assms(1) have "sort_with latest_first (threads s) = threads s"
    unfolding in_order_def by (intro sort_threads_unchanged) simp_all
  with Sort assms(1) show ?thesis
    by (simp add: Subscription_sort_def in_order_def latest_is_last_def)
next
  case (Add th)
  show ?thesis
  proof (cases "list_all isFinite (ep th) \<and> title th \<noteq> [] \<and> link th \<noteq> []")
    case False
    then show ?thesis
      using assms(1) Add by (auto simp: Subscription_add_def)
  next
    case True
    let ?ths = "sort_with latest_first (threads s @ [th])"
    from True have "\<exists>m e. first_elem (ep th) = Some (Fin m e)"
      using assms(2) Add by (intro fin_first_valid) auto
    with assms(1) have all: "\<forall>t \<in> set (threads s @ [th]). \<exists>m e. first_elem (ep t) = Some (Fin m e)"
      by (auto simp: in_order_def)
    from True have thr: "threads (do_call s c) = ?ths"
      and lat: "latest (do_call s c)
                  = (case first_elem ?ths of None \<Rightarrow> None | Some th0 \<Rightarrow> last_elem (ep th0))"
      using Add by (simp_all add: add_valid)
    have fin: "\<forall>t \<in> set ?ths. \<exists>m e. first_elem (ep t) = Some (Fin m e)"
      using all by (simp add: set_sort_with)
    have "length ?ths = Suc (length (threads s))"
      by (simp add: length_sort_with)
    then obtain th0 rest where ths: "?ths = th0 # rest"
      by (cases ?ths) auto
    with fin have "ep th0 \<noteq> []"
      by auto
    then have "latest_is_last (do_call s c)"
      by (simp add: latest_is_last_def thr lat ths last_elem_last)
    with fin sort_threads_fin [OF all] show ?thesis
      by (simp add: in_order_def thr)
  qed
qed

lemma do_calls_in_order:
  assumes "in_order s" and "\<forall>th. Add th \<in> set cs \<longrightarrow> ep th \<noteq> []"
  shows "in_order (do_calls s cs)"
  using assms
proof (induction cs arbitrary: s)
  case Nil
  then show ?case by (simp add: do_calls_def)
next
  case (Cons c cs)
  have "in_order (do_call s c)"
    using Cons.prems by (intro do_call_in_order) auto
  from Cons.IH [OF this] Cons.prems(2) show ?case
    by (simp add: do_calls_def)
qed

lemma new_in_order: "in_order (Subscription (Str str))"
  by (simp add: in_order_def latest_is_last_def Let_def)

text \<open>
  C5. The claim: after any \<open>add\<close> and \<open>sort\<close> calls on a new subscription the threads
  are sorted by descending \<open>ep[0]\<close>. The code sorts after every push, but \<open>add\<close>
  accepts a thread with the empty \<open>ep\<close>, on which \<open>every(isFinite)\<close> holds: its
  \<open>ep[0]\<close> is \<open>undefined\<close> and the comparator is \<open>NaN\<close> on it. Episode 1, then a
  thread with the empty \<open>ep\<close>, then episode 2 are one run for the sort and stay as
  they are, episode 1 before episode 2.
\<close>

theorem threads_empty_ep_not_descending:
  "threads (do_calls Show [Add E1, Add No_ep, Add E2]) = [E1, No_ep, E2]
   \<and> js_lt (ToNumber (first_elem (ep E1))) (ToNumber (first_elem (ep E2)))
   \<and> \<not> descending_ep0 (threads (do_calls Show [Add E1, Add No_ep, Add E2]))"
  by code_simp

text \<open>
  The empty \<open>ep\<close> is the only way out of the order: when every thread handed to \<open>add\<close>
  has a non-empty \<open>ep\<close>, the threads are sorted by descending \<open>ep[0]\<close> after any calls.
\<close>

theorem threads_descending:
  assumes "\<forall>th. Add th \<in> set cs \<longrightarrow> ep th \<noteq> []"
  shows "descending_ep0 (threads (do_calls (Subscription (Str str)) cs))"
proof -
  have "in_order (do_calls (Subscription (Str str)) cs)"
    using new_in_order assms by (rule do_calls_in_order)
  then show ?thesis
    by (simp add: in_order_def descending_fin)
qed

text \<open>The theorem on a run with a \<open>sort\<close> call and a rejected thread in between.\<close>

theorem threads_descending_witness:
  "descending_ep0 (threads (do_calls (Subscription (Str ''Show,kw'')) [Add E2, Sort, Add E10, Add Bad, Add E5]))
   \<and> threads (do_calls (Subscription (Str ''Show,kw'')) [Add E2, Sort, Add E10, Add Bad, Add E5]) = [E10, E5, E2]"
proof -
  have a: "\<forall>th. Add th \<in> set [Add E2, Sort, Add E10, Add Bad, Add E5] \<longrightarrow> ep th \<noteq> []"
    by (auto simp: E2_def E10_def E5_def Bad_def)
  have b: "threads (do_calls (Subscription (Str ''Show,kw'')) [Add E2, Sort, Add E10, Add Bad, Add E5]) = [E10, E5, E2]"
    by code_simp
  from threads_descending [OF a, of "''Show,kw''"] b show ?thesis
    by simp
qed

text \<open>
  C6. The claim: after any \<open>add\<close> and \<open>sort\<close> calls on a new subscription \<open>latest\<close> is
  the last element of the \<open>ep\<close> of the first thread, or \<open>-1\<close> when there is no thread.
  The code assigns \<open>threads[0].ep.slice(-1)[0]\<close>, but \<open>add\<close> accepts a thread with the
  empty \<open>ep\<close>. Added first, it stays first when episode 1 follows (the comparator is
  \<open>NaN\<close> against it), and \<open>latest\<close> is \<open>undefined\<close>: no number, with an episode known.
\<close>

theorem latest_undefined_on_empty_ep:
  "threads (do_calls Show [Add No_ep, Add E1]) = [No_ep, E1]
   \<and> ep No_ep = []
   \<and> latest (do_calls Show [Add No_ep, Add E1]) = None
   \<and> \<not> latest_is_last (do_calls Show [Add No_ep, Add E1])"
  by code_simp

text \<open>
  Again the empty \<open>ep\<close> is the only way: when every thread handed to \<open>add\<close> has a
  non-empty \<open>ep\<close>, then after any calls \<open>latest\<close> is \<open>-1\<close> with no thread and the last
  episode of the first thread otherwise. \<open>sort\<close> does not assign \<open>latest\<close>; it leaves
  threads that \<open>add\<close> has sorted as they are.
\<close>

theorem latest_is_last_of_first:
  assumes "\<forall>th. Add th \<in> set cs \<longrightarrow> ep th \<noteq> []"
  shows "latest_is_last (do_calls (Subscription (Str str)) cs)"
proof -
  have "in_order (do_calls (Subscription (Str str)) cs)"
    using new_in_order assms by (rule do_calls_in_order)
  then show ?thesis
    by (simp add: in_order_def)
qed

text \<open>Scenario A of the specification, with a \<open>sort\<close> call after it.\<close>

theorem latest_is_last_of_first_witness:
  "threads (do_calls (Subscription (Str ''Show,kw'')) [Add E1, Add E2, Sort]) = [E2, E1]
   \<and> latest (do_calls (Subscription (Str ''Show,kw'')) [Add E1, Add E2, Sort]) = Some (Fin 2 0)"
proof -
  have a: "\<forall>th. Add th \<in> set [Add E1, Add E2, Sort] \<longrightarrow> ep th \<noteq> []"
    by (auto simp: E1_def E2_def)
  have b: "threads (do_calls (Subscription (Str ''Show,kw'')) [Add E1, Add E2, Sort]) = [E2, E1]"
    by code_simp
  have c: "last (ep E2) = Fin 2 0"
    by (simp add: E2_def)
  from latest_is_last_of_first [OF a, of "''Show,kw''"] show ?thesis
    unfolding latest_is_last_def b by (simp add: c del: Subscription.simps)
qed

text \<open>
  The sort on an array that is not sorted and holds a thread with the empty \<open>ep\<close>:
  the run of episodes 1 and 2 is reversed, the thread without episodes ends the
  run, and episode 5 goes to the front by the binary search.
\<close>

lemma sort_with_empty_ep:
  "sort_with latest_first [E1, E2, No_ep, E5] = [E5, E2, E1, No_ep]"
  by code_simp

section \<open>\<open>generateSid\<close>\<close>



section \<open>\<open>getThreads\<close> on a whole selector\<close>

text \<open>
  C8. The claim: for every selector the result has no thread twice, and the threads
  come in the order in which the tokens, from left to right, first give them. For the
  selectors \<open>all\<close> and the empty one the code returns \<open>threads\<close> itself, repetitions
  included. What is proved: for every other selector the result is the list of the
  threads of the tokens, from left to right, each at its first occurrence; and the
  result has no thread twice for every other selector, and for those two as well
  when \<open>threads\<close> has no thread twice.
\<close>

theorem getThreads_union_first_met:
  "(epstr \<noteq> [] \<and> epstr \<noteq> ''all'' \<longrightarrow>
      Subscription_getThreads s epstr
        = first_occurrences (concat (map (token_threads (threads s)) (split_comma epstr))))
   \<and> (epstr \<noteq> [] \<and> epstr \<noteq> ''all'' \<or> distinct (threads s) \<longrightarrow>
        distinct (Subscription_getThreads s epstr))"
proof (cases "epstr \<noteq> [] \<and> epstr \<noteq> ''all''")
  case True
  then show ?thesis
    by (simp add: getThreads_tokens distinct_first_occurrences)
next
  case False
  then show ?thesis
    by (auto simp: Subscription_getThreads_def)
qed

text \<open>The theorem on overlapping tokens, and on \<open>all\<close> with three different threads.\<close>

theorem getThreads_union_first_met_witness:
  "Subscription_getThreads Show_2_5_10 ''2,5,2..5,10'' = [E2, E5, E10]
   \<and> distinct (Subscription_getThreads Show_2_5_10 ''2,5,2..5,10'')
   \<and> distinct (Subscription_getThreads Show_2_5_10 ''all'')"
proof -
  have a: "''2,5,2..5,10'' \<noteq> [] \<and> ''2,5,2..5,10'' \<noteq> ''all''"
    by simp
  have b: "first_occurrences (concat (map (token_threads (threads Show_2_5_10))
             (split_comma ''2,5,2..5,10''))) = [E2, E5, E10]"
    by code_simp
  have c: "distinct (threads Show_2_5_10)"
    by code_simp
  from getThreads_union_first_met [of "''2,5,2..5,10''" Show_2_5_10]
    getThreads_union_first_met [of "''all''" Show_2_5_10] a c
  show ?thesis
    unfolding b by blast
qed

text \<open>
  Against the claim as stated: the same thread added twice is twice in the result
  of \<open>all\<close>.
\<close>

theorem getThreads_all_repeats:
  "Subscription_getThreads (do_calls Show [Add E1, Add E1]) ''all'' = [E1, E1]"
  by code_simp

text \<open>
  C9. On \<open>all\<close> and on the empty string \<open>getThreads\<close> returns \<open>threads\<close>, all of it
  and in its order.
\<close>

theorem getThreads_all:
  "Subscription_getThreads s ''all'' = threads s \<and> Subscription_getThreads s [] = threads s"
  by (simp add: Subscription_getThreads_def)

end
